theory Spec2Isabelle
  imports Complex_Main
begin

section \<open>The scene edit store of the 3D room designer\<close>

text \<open>
  The store of \<^verbatim>\<open>src/RoomDesignerApp.jsx\<close> (lines 7 to 45) holds the placed objects, the
  selection and two stacks of serialised snapshots. Its methods are embedded below as
  functions from a store state to the next store state, one per method, with the names
  of the source. A call of \<^verbatim>\<open>set\<close> merges the fields it is given into the state, which is a
  record update here. The second source file holds an earlier store with the same
  \<^verbatim>\<open>addObject\<close>, \<^verbatim>\<open>select\<close>, \<^verbatim>\<open>updateObject\<close> and \<^verbatim>\<open>removeObject\<close> and no history.
\<close>

subsection \<open>JavaScript values\<close>

text \<open>
  A number is a finite value, negative zero, or one of the three non-finite values.
  A finite double is identified by the rational it denotes; the store never computes
  with numbers, it only carries them.
\<close>

datatype jsnum = Finite rat | NegZero | NaN | PosInfinity | NegInfinity

text \<open>
  The values a placed object or a patch can carry. An object is the list of its own
  properties in the order of their creation, which is the order in which JavaScript
  enumerates them: the property names of this program are identifiers, none is an array
  index.
\<close>

datatype jsval =
    Undefined
  | Null
  | Bool bool
  | Num jsnum
  | Str string
  | Arr "jsval list"
  | Obj "(string \<times> jsval) list"

type_synonym jsobj = "(string \<times> jsval) list"

text \<open>\<^verbatim>\<open>o.k\<close>: the value of property \<open>k\<close>, \<^verbatim>\<open>undefined\<close> when the object has none.\<close>

definition get_prop :: "jsobj \<Rightarrow> string \<Rightarrow> jsval" where
  "get_prop ob k = (case map_of ob k of None \<Rightarrow> Undefined | Some v \<Rightarrow> v)"

text \<open>
  Defining one property on an object under construction: an existing property keeps its
  place and takes the new value, a new property goes to the end.
\<close>

primrec set_prop :: "string \<Rightarrow> jsval \<Rightarrow> jsobj \<Rightarrow> jsobj" where
  "set_prop k v [] = [(k, v)]"
| "set_prop k v (p # ps) = (if fst p = k then (k, v) # ps else p # set_prop k v ps)"

text \<open>
  \<^verbatim>\<open>...src\<close> inside an object literal: every own property of \<open>src\<close>, in order, is
  defined on the object under construction.
\<close>

definition copy_props :: "jsobj \<Rightarrow> jsobj \<Rightarrow> jsobj" where
  "copy_props src target = fold (\<lambda>(k, v). set_prop k v) src target"

text \<open>
  \<^verbatim>\<open>{...o, ...patch}\<close>: the new object starts as a copy of \<open>o\<close>, that is with the
  properties of \<open>o\<close> in their order, and then takes the properties of \<open>patch\<close>.
\<close>

definition spread :: "jsobj \<Rightarrow> jsobj \<Rightarrow> jsobj" where
  "spread ob patch = copy_props patch ob"

subsection \<open>JSON texts\<close>

text \<open>
  A JSON text is represented by its syntax tree. JSON has no \<^verbatim>\<open>undefined\<close> and no
  non-finite number.
\<close>

datatype json =
    JNull
  | JBool bool
  | JNumber rat
  | JString string
  | JArray "json list"
  | JObject "(string \<times> json) list"

text \<open>
  \<^verbatim>\<open>JSON.stringify\<close> on a value: \<open>None\<close> is the result \<^verbatim>\<open>undefined\<close>. A non-finite number
  is written \<^verbatim>\<open>null\<close>, negative zero is written \<^verbatim>\<open>0\<close>, an \<^verbatim>\<open>undefined\<close> array element
  is written \<^verbatim>\<open>null\<close> and a property whose value is \<^verbatim>\<open>undefined\<close> is left out.
\<close>

fun stringify_num :: "jsnum \<Rightarrow> json" where
  "stringify_num (Finite q) = JNumber q"
| "stringify_num NegZero = JNumber 0"
| "stringify_num NaN = JNull"
| "stringify_num PosInfinity = JNull"
| "stringify_num NegInfinity = JNull"

fun stringify_value :: "jsval \<Rightarrow> json option"
  and stringify_elements :: "jsval list \<Rightarrow> json list"
  and stringify_props :: "(string \<times> jsval) list \<Rightarrow> (string \<times> json) list" where
  "stringify_value Undefined = None"
| "stringify_value Null = Some JNull"
| "stringify_value (Bool b) = Some (JBool b)"
| "stringify_value (Num n) = Some (stringify_num n)"
| "stringify_value (Str s) = Some (JString s)"
| "stringify_value (Arr vs) = Some (JArray (stringify_elements vs))"
| "stringify_value (Obj ps) = Some (JObject (stringify_props ps))"
| "stringify_elements [] = []"
| "stringify_elements (v # vs) =
     (case stringify_value v of None \<Rightarrow> JNull | Some j \<Rightarrow> j) # stringify_elements vs"
| "stringify_props [] = []"
| "stringify_props ((k, v) # ps) =
     (case stringify_value v of
        None \<Rightarrow> stringify_props ps
      | Some j \<Rightarrow> (k, j) # stringify_props ps)"

text \<open>\<^verbatim>\<open>JSON.parse\<close> on a JSON text.\<close>

fun parse_value :: "json \<Rightarrow> jsval"
  and parse_elements :: "json list \<Rightarrow> jsval list"
  and parse_props :: "(string \<times> json) list \<Rightarrow> (string \<times> jsval) list" where
  "parse_value JNull = Null"
| "parse_value (JBool b) = Bool b"
| "parse_value (JNumber q) = Num (Finite q)"
| "parse_value (JString s) = Str s"
| "parse_value (JArray js) = Arr (parse_elements js)"
| "parse_value (JObject ps) = Obj (parse_props ps)"
| "parse_elements [] = []"
| "parse_elements (j # js) = parse_value j # parse_elements js"
| "parse_props [] = []"
| "parse_props ((k, j) # ps) = (k, parse_value j) # parse_props ps"

text \<open>
  A snapshot is the text \<^verbatim>\<open>JSON.stringify({ objects: ... })\<close>. Its only member is the array
  of the serialised objects, so the text is represented by the list of their property
  lists.
\<close>

type_synonym snapshot = "(string \<times> json) list list"

definition JSON_stringify :: "jsobj list \<Rightarrow> snapshot" where
  "JSON_stringify objs = map stringify_props objs"

text \<open>\<^verbatim>\<open>JSON.parse(last).objects\<close>\<close>

definition JSON_parse_objects :: "snapshot \<Rightarrow> jsobj list" where
  "JSON_parse_objects snap = map parse_props snap"

text \<open>
  Values that are plain JSON data: no \<^verbatim>\<open>undefined\<close>, no negative zero and no non-finite
  number anywhere inside.
\<close>

fun json_plain :: "jsval \<Rightarrow> bool"
  and json_plain_elements :: "jsval list \<Rightarrow> bool"
  and json_plain_props :: "(string \<times> jsval) list \<Rightarrow> bool" where
  "json_plain Undefined = False"
| "json_plain Null = True"
| "json_plain (Bool b) = True"
| "json_plain (Num n) = (case n of Finite q \<Rightarrow> True | _ \<Rightarrow> False)"
| "json_plain (Str s) = True"
| "json_plain (Arr vs) = json_plain_elements vs"
| "json_plain (Obj ps) = json_plain_props ps"
| "json_plain_elements [] = True"
| "json_plain_elements (v # vs) = (json_plain v \<and> json_plain_elements vs)"
| "json_plain_props [] = True"
| "json_plain_props ((k, v) # ps) = (json_plain v \<and> json_plain_props ps)"

subsection \<open>The store\<close>

text \<open>
  \<^verbatim>\<open>selectedId\<close> is \<^verbatim>\<open>null\<close> (\<open>None\<close>) or an identifier; identifiers are strings. The top of
  a stack is the last element of its list, as in the source.
\<close>

record store =
  objects :: "jsobj list"
  selectedId :: "string option"
  undoStack :: "snapshot list"
  redoStack :: "snapshot list"

definition init_store :: store where
  "init_store = \<lparr>objects = [], selectedId = None, undoStack = [], redoStack = []\<rparr>"

text \<open>\<^verbatim>\<open>o.id === id\<close> for an identifier \<open>id\<close>.\<close>

definition has_id :: "string \<Rightarrow> jsobj \<Rightarrow> bool" where
  "has_id i ob = (get_prop ob ''id'' = Str i)"

definition pushUndo :: "store \<Rightarrow> store" where
  "pushUndo s =
     (let snapshot = JSON_stringify (objects s)
      in s\<lparr>undoStack := undoStack s @ [snapshot], redoStack := []\<rparr>)"

definition addObject :: "jsobj \<Rightarrow> store \<Rightarrow> store" where
  "addObject obj s = pushUndo (s\<lparr>objects := objects s @ [obj]\<rparr>)"

definition updateObject :: "string \<Rightarrow> jsobj \<Rightarrow> store \<Rightarrow> store" where
  "updateObject i patch s =
     pushUndo (s\<lparr>objects := map (\<lambda>ob. if has_id i ob then spread ob patch else ob) (objects s)\<rparr>)"

definition removeObject :: "string \<Rightarrow> store \<Rightarrow> store" where
  "removeObject i s =
     pushUndo (s\<lparr>objects := filter (\<lambda>ob. \<not> has_id i ob) (objects s),
                 selectedId := (if selectedId s = Some i then None else selectedId s)\<rparr>)"

definition select :: "string option \<Rightarrow> store \<Rightarrow> store" where
  "select i s = s\<lparr>selectedId := i\<rparr>"

definition undo :: "store \<Rightarrow> store" where
  "undo s =
     (if length (undoStack s) = 0 then s
      else
        let lst = last (undoStack s);
            s1 = s\<lparr>redoStack := redoStack s @ [JSON_stringify (objects s)],
                   undoStack := butlast (undoStack s)\<rparr>
        in s1\<lparr>objects := JSON_parse_objects lst, selectedId := None\<rparr>)"

definition redo :: "store \<Rightarrow> store" where
  "redo s =
     (if length (redoStack s) = 0 then s
      else
        let lst = last (redoStack s);
            s1 = s\<lparr>undoStack := undoStack s @ [JSON_stringify (objects s)],
                   redoStack := butlast (redoStack s)\<rparr>
        in s1\<lparr>objects := JSON_parse_objects lst, selectedId := None\<rparr>)"

subsection \<open>Sequences of store calls\<close>

datatype call =
    AddObject jsobj
  | UpdateObject string jsobj
  | RemoveObject string
  | Select "string option"
  | Undo
  | Redo

fun perform :: "call \<Rightarrow> store \<Rightarrow> store" where
  "perform (AddObject obj) s = addObject obj s"
| "perform (UpdateObject i patch) s = updateObject i patch s"
| "perform (RemoveObject i) s = removeObject i s"
| "perform (Select i) s = select i s"
| "perform Undo s = undo s"
| "perform Redo s = redo s"

fun run :: "call list \<Rightarrow> store \<Rightarrow> store" where
  "run [] s = s"
| "run (c # cs) s = run cs (perform c s)"

subsection \<open>Predicates on states and calls\<close>

text \<open>The selection references nothing or an object of the scene.\<close>

definition selection_ok :: "store \<Rightarrow> bool" where
  "selection_ok s =
     (case selectedId s of None \<Rightarrow> True | Some i \<Rightarrow> list_ex (has_id i) (objects s))"

text \<open>The three calls that edit the object set.\<close>

fun mutating :: "call \<Rightarrow> bool" where
  "mutating (AddObject obj) = True"
| "mutating (UpdateObject i patch) = True"
| "mutating (RemoveObject i) = True"
| "mutating c = False"

text \<open>
  A call that a caller respecting the selection makes: \<^verbatim>\<open>select\<close> is given \<^verbatim>\<open>null\<close> or
  the identifier of an object of the scene, and a patch for the selected object does not
  name \<^verbatim>\<open>id\<close>.
\<close>

fun call_ok :: "call \<Rightarrow> store \<Rightarrow> bool" where
  "call_ok (Select (Some i)) s = list_ex (has_id i) (objects s)"
| "call_ok (UpdateObject i patch) s =
     (selectedId s \<noteq> Some i \<or> ''id'' \<notin> set (map fst patch))"
| "call_ok c s = True"

fun run_ok :: "call list \<Rightarrow> store \<Rightarrow> bool" where
  "run_ok [] s = True"
| "run_ok (c # cs) s = (call_ok c s \<and> run_ok cs (perform c s))"

text \<open>The objects handed to \<^verbatim>\<open>addObject\<close> by a sequence of calls, in order.\<close>

fun added :: "call list \<Rightarrow> jsobj list" where
  "added [] = []"
| "added (AddObject obj # cs) = obj # added cs"
| "added (c # cs) = added cs"

definition id_size :: "jsobj \<Rightarrow> jsval \<times> jsval" where
  "id_size ob = (get_prop ob ''id'', get_prop ob ''size'')"

definition id_size_plain :: "jsobj \<Rightarrow> bool" where
  "id_size_plain ob = (json_plain (get_prop ob ''id'') \<and> json_plain (get_prop ob ''size''))"

text \<open>A call whose patch, if it has one, names neither \<^verbatim>\<open>id\<close> nor \<^verbatim>\<open>size\<close>.\<close>

fun keeps_id_size :: "call \<Rightarrow> bool" where
  "keeps_id_size (UpdateObject i patch) =
     (''id'' \<notin> set (map fst patch) \<and> ''size'' \<notin> set (map fst patch))"
| "keeps_id_size c = True"

text \<open>
  The invariant behind the permanence of \<^verbatim>\<open>id\<close> and \<^verbatim>\<open>size\<close>: every object of the scene
  and of every snapshot carries a pair of the set \<open>C\<close>.
\<close>

definition id_size_inv :: "(jsval \<times> jsval) set \<Rightarrow> store \<Rightarrow> bool" where
  "id_size_inv C s =
     ((\<forall>ob\<in>set (objects s). id_size ob \<in> C) \<and>
      (\<forall>snap\<in>set (undoStack s @ redoStack s). \<forall>jo\<in>set snap. id_size (parse_props jo) \<in> C))"

subsection \<open>Objects of the scenarios\<close>

text \<open>
  Objects as \<^verbatim>\<open>handleAddFromLib\<close> builds them from the furniture library: strings, finite
  numbers, arrays of finite numbers and an empty \<^verbatim>\<open>meta\<close>.
\<close>

definition sofa :: jsobj where
  "sofa =
     [(''id'', Str ''a''), (''name'', Str ''Sofa (2P)''), (''category'', Str ''Seating''),
      (''size'', Arr [Num (Finite 2), Num (Finite (9 / 10)), Num (Finite (9 / 10))]),
      (''position'', Arr [Num (Finite 0), Num (Finite (45 / 100)), Num (Finite 0)]),
      (''rotation'', Num (Finite 0)), (''color'', Str ''#8b5cf6''), (''meta'', Obj [])]"

definition rug :: jsobj where
  "rug =
     [(''id'', Str ''b''), (''name'', Str ''Rug''), (''category'', Str ''Decor''),
      (''size'', Arr [Num (Finite 2), Num (Finite (2 / 100)), Num (Finite (3 / 2))]),
      (''position'', Arr [Num (Finite 0), Num (Finite (1 / 100)), Num (Finite 0)]),
      (''rotation'', Num (Finite 0)), (''color'', Str ''#ef4444''), (''meta'', Obj [])]"

text \<open>
  Two sequences of calls. The first respects the selection: it selects objects of the
  scene only and renames an object that is not selected. The second never patches
  \<^verbatim>\<open>id\<close> or \<^verbatim>\<open>size\<close>; its position patch is what the inspector sends when the text of the
  X field does not parse as a number.
\<close>

definition selecting_session :: "call list" where
  "selecting_session =
     [AddObject sofa, Select (Some ''a''), UpdateObject ''a'' [(''color'', Str ''#ff0000'')],
      AddObject rug, UpdateObject ''b'' [(''id'', Str ''c'')], RemoveObject ''c'', Undo, Redo,
      Select (Some ''a'')]"

definition patching_session :: "call list" where
  "patching_session =
     [AddObject sofa, Select (Some ''a''),
      UpdateObject ''a''
        [(''color'', Str ''#ff0000''),
         (''position'', Arr [Num NaN, Num (Finite (45 / 100)), Num (Finite 0)])],
      AddObject rug, RemoveObject ''b'', Undo, Undo, Redo]"

section \<open>Properties of the values\<close>

text \<open>Parsing what was serialised gives a plain value back.\<close>

lemma parse_stringify_value:
  "json_plain v \<longrightarrow> (\<exists>j. stringify_value v = Some j \<and> parse_value j = v)"
  "json_plain_elements vs \<longrightarrow> parse_elements (stringify_elements vs) = vs"
  "json_plain_props ps \<longrightarrow> parse_props (stringify_props ps) = ps"
  by (induction v and vs and ps rule: stringify_value_stringify_elements_stringify_props.induct)
     (auto split: jsnum.splits)

lemma parse_stringify_props: "json_plain_props ps \<Longrightarrow> parse_props (stringify_props ps) = ps"
  by (simp add: parse_stringify_value)

lemma parse_stringify_objects:
  "list_all json_plain_props objs \<Longrightarrow> JSON_parse_objects (JSON_stringify objs) = objs"
  by (induction objs) (simp_all add: JSON_parse_objects_def JSON_stringify_def parse_stringify_props)

lemma map_of_set_prop: "map_of (set_prop k v ob) = (map_of ob)(k \<mapsto> v)"
  by (induction ob) auto

lemma map_of_copy_props: "map_of (copy_props src t) = map_of t ++ map_of (rev src)"
  unfolding copy_props_def
  by (induction src arbitrary: t) (auto simp: map_of_set_prop map_add_def fun_eq_iff split: option.splits)

lemma get_prop_spread_other:
  assumes "k \<notin> set (map fst patch)"
  shows "get_prop (spread ob patch) k = get_prop ob k"
proof -
  from assms have "map_of (rev patch) k = None"
    by (simp add: map_of_eq_None_iff)
  then show ?thesis
    by (simp add: get_prop_def spread_def map_of_copy_props map_add_def)
qed

lemma get_prop_spread_named:
  assumes "distinct (map fst patch)" and "(k, v) \<in> set patch"
  shows "get_prop (spread ob patch) k = v"
proof -
  from assms have "map_of (rev patch) k = Some v"
    by (simp add: rev_map [symmetric])
  then show ?thesis
    by (simp add: get_prop_def spread_def map_of_copy_props map_add_def)
qed

lemma get_prop_parse_stringify:
  "json_plain (get_prop ob k) \<Longrightarrow> get_prop (parse_props (stringify_props ob)) k = get_prop ob k"
proof (induction ob)
  case Nil
  then show ?case by (simp add: get_prop_def)
next
  case (Cons p ps)
  obtain k' v where p: "p = (k', v)" by (cases p)
  show ?case
  proof (cases "k' = k")
    case True
    with Cons.prems p have "json_plain v" by (simp add: get_prop_def)
    then obtain j where "stringify_value v = Some j" "parse_value j = v"
      using parse_stringify_value(1) by blast
    with True p show ?thesis by (simp add: get_prop_def)
  next
    case False
    with Cons p show ?thesis
      by (cases "stringify_value v") (simp_all add: get_prop_def)
  qed
qed

section \<open>Properties of the store\<close>

lemmas store_defs = pushUndo_def addObject_def updateObject_def removeObject_def select_def
  undo_def redo_def

lemma objects_pushUndo: "objects (pushUndo s) = objects s"
  by (simp add: pushUndo_def)

lemma mutating_stacks:
  "mutating c \<Longrightarrow> undoStack (perform c s) = undoStack s @ [JSON_stringify (objects (perform c s))]
     \<and> redoStack (perform c s) = []"
  by (cases c) (simp_all add: store_defs)

lemma undo_after_mutating:
  assumes "mutating c"
  shows "objects (undo (perform c s)) = JSON_parse_objects (JSON_stringify (objects (perform c s)))"
    and "undoStack (undo (perform c s)) = undoStack s"
  using mutating_stacks [OF assms, of s] by (simp_all add: undo_def Let_def)

lemma sofa_plain: "json_plain_props sofa"
  by (simp add: sofa_def)

lemma rug_plain: "json_plain_props rug"
  by (simp add: rug_def)

lemma undo_add_sofa:
  "undo (addObject sofa init_store) =
     \<lparr>objects = [sofa], selectedId = None, undoStack = [], redoStack = [JSON_stringify [sofa]]\<rparr>"
  by (simp add: undo_def addObject_def pushUndo_def init_store_def parse_stringify_objects sofa_plain)

lemma map_update_absent:
  "\<forall>ob\<in>set objs. \<not> has_id i ob \<Longrightarrow>
     map (\<lambda>ob. if has_id i ob then spread ob patch else ob) objs = objs"
  by (induction objs) simp_all

lemma filter_remove_absent:
  "\<forall>ob\<in>set objs. \<not> has_id i ob \<Longrightarrow> filter (\<lambda>ob. \<not> has_id i ob) objs = objs"
  by (induction objs) simp_all

lemma objects_updateObject:
  "objects (updateObject t patch s) =
     map (\<lambda>ob. if has_id t ob then spread ob patch else ob) (objects s)"
  by (simp add: updateObject_def pushUndo_def)

lemma objects_run_adds: "objects (run (map AddObject objs) s) = objects s @ objs"
  by (induction objs arbitrary: s) (simp_all add: addObject_def pushUndo_def)

lemma filter_same_key:
  "distinct (map f xs) \<Longrightarrow> x \<in> set xs \<Longrightarrow> filter (\<lambda>y. f y = f x) xs = [x]"
proof (induction xs)
  case Nil
  then show ?case by simp
next
  case (Cons a xs)
  show ?case
  proof (cases "a = x")
    case True
    have "filter (\<lambda>y. f y = f x) xs = []"
      using Cons.prems(1) True by (auto simp: filter_empty_conv image_iff)
    with True show ?thesis by simp
  next
    case False
    with Cons.prems have "x \<in> set xs" "f a \<noteq> f x" by auto
    with Cons show ?thesis by simp
  qed
qed

lemma redo_undo_objects:
  assumes "undoStack s \<noteq> []"
  shows "objects (redo (undo s)) = JSON_parse_objects (JSON_stringify (objects s))"
  using assms by (simp add: undo_def redo_def Let_def)

lemma two_undos:
  "run [AddObject sofa, AddObject rug, Undo, Undo] init_store =
     \<lparr>objects = [sofa], selectedId = None, undoStack = [],
      redoStack = [JSON_stringify [sofa, rug], JSON_stringify [sofa, rug]]\<rparr>"
  by (simp add: store_defs init_store_def parse_stringify_objects sofa_plain rug_plain)

subsection \<open>The selection\<close>

lemma has_id_spread:
  "''id'' \<notin> set (map fst patch) \<Longrightarrow> has_id i (spread ob patch) = has_id i ob"
  by (simp add: has_id_def get_prop_spread_other)

lemma has_id_unique: "has_id i ob \<Longrightarrow> has_id j ob \<Longrightarrow> i = j"
  by (simp add: has_id_def)

lemma list_ex_map_member: "x \<in> set xs \<Longrightarrow> P (f x) \<Longrightarrow> list_ex P (map f xs)"
  by (auto simp: list_ex_iff)

lemma selection_ok_update:
  assumes "selection_ok s" and "call_ok (UpdateObject i patch) s"
  shows "selection_ok (updateObject i patch s)"
proof (cases "selectedId s")
  case None
  then show ?thesis by (simp add: selection_ok_def updateObject_def pushUndo_def)
next
  case (Some j)
  with assms(1) obtain ob where ob: "ob \<in> set (objects s)" "has_id j ob"
    by (auto simp: selection_ok_def list_ex_iff)
  let ?f = "\<lambda>ob. if has_id i ob then spread ob patch else ob"
  have "has_id j (?f ob)"
  proof (cases "has_id i ob")
    case True
    with ob(2) have "i = j" using has_id_unique by blast
    with assms(2) Some have "''id'' \<notin> set (map fst patch)" by simp
    with ob(2) True show ?thesis by (simp add: has_id_spread)
  next
    case False
    with ob(2) show ?thesis by simp
  qed
  with ob(1) have "list_ex (has_id j) (map ?f (objects s))"
    by (rule list_ex_map_member)
  with Some show ?thesis
    by (simp add: selection_ok_def updateObject_def pushUndo_def)
qed

lemma selection_ok_remove:
  assumes "selection_ok s"
  shows "selection_ok (removeObject i s)"
proof (cases "selectedId s = Some i \<or> selectedId s = None")
  case True
  then show ?thesis by (auto simp: selection_ok_def removeObject_def pushUndo_def)
next
  case False
  then obtain j where j: "selectedId s = Some j" "j \<noteq> i" by auto
  with assms obtain ob where ob: "ob \<in> set (objects s)" "has_id j ob"
    by (auto simp: selection_ok_def list_ex_iff)
  with j have "\<not> has_id i ob" using has_id_unique by blast
  with ob j show ?thesis
    by (auto simp: selection_ok_def removeObject_def pushUndo_def list_ex_iff)
qed

lemma selection_ok_perform:
  assumes "selection_ok s" and "call_ok c s"
  shows "selection_ok (perform c s)"
proof (cases c)
  case (AddObject obj)
  with assms(1) show ?thesis
    by (auto simp: selection_ok_def addObject_def pushUndo_def list_ex_iff split: option.splits)
next
  case (UpdateObject i patch)
  with assms show ?thesis by (simp add: selection_ok_update)
next
  case (RemoveObject i)
  with assms show ?thesis by (simp add: selection_ok_remove)
next
  case (Select x)
  with assms(2) show ?thesis
    by (cases x) (simp_all add: selection_ok_def select_def)
next
  case Undo
  with assms(1) show ?thesis by (simp add: selection_ok_def undo_def Let_def)
next
  case Redo
  with assms(1) show ?thesis by (simp add: selection_ok_def redo_def Let_def)
qed

lemma selection_ok_run: "selection_ok s \<Longrightarrow> run_ok cs s \<Longrightarrow> selection_ok (run cs s)"
  by (induction cs arbitrary: s) (simp_all add: selection_ok_perform)

subsection \<open>Identifier and size\<close>

lemma id_size_spread:
  "''id'' \<notin> set (map fst patch) \<Longrightarrow> ''size'' \<notin> set (map fst patch) \<Longrightarrow>
     id_size (spread ob patch) = id_size ob"
  by (simp add: id_size_def get_prop_spread_other)

lemma id_size_parse_stringify:
  "id_size_plain ob \<Longrightarrow> id_size (parse_props (stringify_props ob)) = id_size ob"
  by (simp add: id_size_def id_size_plain_def get_prop_parse_stringify)

lemma id_size_inv_pushUndo:
  assumes "id_size_inv C s" and "\<forall>ob\<in>set (objects s). id_size_plain ob"
  shows "id_size_inv C (pushUndo s)"
  using assms
  by (auto simp: id_size_inv_def pushUndo_def JSON_stringify_def id_size_parse_stringify)

lemma id_size_inv_undo:
  assumes "id_size_inv C s" and "\<forall>ob\<in>set (objects s). id_size_plain ob"
  shows "id_size_inv C (undo s)"
proof (cases "undoStack s = []")
  case True
  with assms(1) show ?thesis by (simp add: undo_def)
next
  case False
  then have "last (undoStack s) \<in> set (undoStack s)" "set (butlast (undoStack s)) \<subseteq> set (undoStack s)"
    by (auto dest: in_set_butlastD)
  with assms False show ?thesis
    by (auto simp: id_size_inv_def undo_def Let_def JSON_stringify_def JSON_parse_objects_def
        id_size_parse_stringify)
qed

lemma id_size_inv_redo:
  assumes "id_size_inv C s" and "\<forall>ob\<in>set (objects s). id_size_plain ob"
  shows "id_size_inv C (redo s)"
proof (cases "redoStack s = []")
  case True
  with assms(1) show ?thesis by (simp add: redo_def)
next
  case False
  then have "last (redoStack s) \<in> set (redoStack s)" "set (butlast (redoStack s)) \<subseteq> set (redoStack s)"
    by (auto dest: in_set_butlastD)
  with assms False show ?thesis
    by (auto simp: id_size_inv_def redo_def Let_def JSON_stringify_def JSON_parse_objects_def
        id_size_parse_stringify)
qed

lemma id_size_inv_perform:
  assumes inv: "id_size_inv C s"
    and plain: "\<forall>p\<in>C. json_plain (fst p) \<and> json_plain (snd p)"
    and keeps: "keeps_id_size c"
    and add: "id_size ` set (added [c]) \<subseteq> C"
  shows "id_size_inv C (perform c s)"
proof -
  have plain_in: "id_size_plain ob" if "id_size ob \<in> C" for ob
    using plain that by (auto simp: id_size_plain_def id_size_def)
  have push: "id_size_inv C (pushUndo s')" if "id_size_inv C s'" for s'
    using that plain_in by (intro id_size_inv_pushUndo) (auto simp: id_size_inv_def)
  have plain_objs: "\<forall>ob\<in>set (objects s). id_size_plain ob"
    using inv plain_in by (simp add: id_size_inv_def)
  show ?thesis
  proof (cases c)
    case (AddObject obj)
    with add have "id_size obj \<in> C" by simp
    with inv have "id_size_inv C (s\<lparr>objects := objects s @ [obj]\<rparr>)"
      by (auto simp: id_size_inv_def)
    with AddObject show ?thesis by (simp add: addObject_def push)
  next
    case (UpdateObject i patch)
    with keeps inv
    have "id_size_inv C
            (s\<lparr>objects := map (\<lambda>ob. if has_id i ob then spread ob patch else ob) (objects s)\<rparr>)"
      by (auto simp: id_size_inv_def id_size_spread)
    with UpdateObject show ?thesis by (simp add: updateObject_def push)
  next
    case (RemoveObject i)
    from inv
    have "id_size_inv C
            (s\<lparr>objects := filter (\<lambda>ob. \<not> has_id i ob) (objects s),
               selectedId := (if selectedId s = Some i then None else selectedId s)\<rparr>)"
      by (auto simp: id_size_inv_def)
    with RemoveObject show ?thesis by (simp add: removeObject_def push)
  next
    case (Select x)
    with inv show ?thesis by (simp add: select_def id_size_inv_def)
  next
    case Undo
    with inv plain_objs show ?thesis
      by (simp add: id_size_inv_undo)
  next
    case Redo
    with inv plain_objs show ?thesis
      by (simp add: id_size_inv_redo)
  qed
qed

lemma set_added_Cons: "set (added (c # cs)) = set (added [c]) \<union> set (added cs)"
  by (cases c) simp_all

lemma id_size_inv_run:
  assumes "\<forall>p\<in>C. json_plain (fst p) \<and> json_plain (snd p)"
  shows "list_all keeps_id_size cs \<Longrightarrow> id_size ` set (added cs) \<subseteq> C \<Longrightarrow>
           id_size_inv C s \<Longrightarrow> id_size_inv C (run cs s)"
proof (induction cs arbitrary: s)
  case Nil
  then show ?case by simp
next
  case (Cons c cs)
  from Cons.prems(2) have sub: "id_size ` set (added [c]) \<subseteq> C" "id_size ` set (added cs) \<subseteq> C"
    unfolding set_added_Cons [of c cs] by auto
  from Cons.prems have "id_size_inv C (perform c s)"
    using assms sub(1) by (intro id_size_inv_perform) simp_all
  with Cons.IH Cons.prems(1) sub(2) show ?case by simp
qed

section \<open>Claims\<close>

text \<open>
  C1 (lagged undo, amended). A mutating call pushes the snapshot of the object set it has
  just produced. Where that object set is plain JSON data, \<^verbatim>\<open>undo\<close> right after an edit
  brings back the object set of that same edit, and a second \<^verbatim>\<open>undo\<close> the object set of
  the edit before it. From the empty scene, \<^verbatim>\<open>addObject(a)\<close> of an object \<open>a\<close> that is plain
  JSON data, then \<^verbatim>\<open>undo()\<close>, leaves the object set \<open>[a]\<close>, not the empty one.
\<close>

theorem lagged_undo:
  "(json_plain_props a \<longrightarrow>
      objects (addObject a init_store) = [a] \<and>
      objects (undo (addObject a init_store)) = [a] \<and>
      objects (undo (addObject a init_store)) \<noteq> objects init_store) \<and>
   (mutating c \<and> list_all json_plain_props (objects (perform c s)) \<longrightarrow>
      objects (undo (perform c s)) = objects (perform c s)) \<and>
   (mutating c \<and> mutating c' \<and> list_all json_plain_props (objects (perform c s)) \<and>
    list_all json_plain_props (objects (perform c' (perform c s))) \<longrightarrow>
      objects (undo (undo (perform c' (perform c s)))) = objects (perform c s))"
proof (intro conjI impI)
  assume a: "json_plain_props a"
  show "objects (addObject a init_store) = [a]"
    by (simp add: addObject_def pushUndo_def init_store_def)
  have "objects (undo (addObject a init_store)) = JSON_parse_objects (JSON_stringify [a])"
    by (simp add: undo_def addObject_def pushUndo_def init_store_def)
  with a show "objects (undo (addObject a init_store)) = [a]"
    by (simp add: parse_stringify_objects)
  then show "objects (undo (addObject a init_store)) \<noteq> objects init_store"
    by (simp add: init_store_def)
next
  assume "mutating c \<and> list_all json_plain_props (objects (perform c s))"
  then show "objects (undo (perform c s)) = objects (perform c s)"
    by (simp add: undo_after_mutating parse_stringify_objects)
next
  assume h: "mutating c \<and> mutating c' \<and> list_all json_plain_props (objects (perform c s)) \<and>
    list_all json_plain_props (objects (perform c' (perform c s)))"
  let ?s1 = "perform c s"
  let ?s2 = "perform c' ?s1"
  from h have u1: "undoStack ?s1 = undoStack s @ [JSON_stringify (objects ?s1)]"
    using mutating_stacks by blast
  from h have u2: "undoStack (undo ?s2) = undoStack ?s1"
    by (simp add: undo_after_mutating)
  have "objects (undo (undo ?s2)) = JSON_parse_objects (JSON_stringify (objects ?s1))"
    using u1 u2 by (simp add: undo_def [of "undo ?s2"] Let_def)
  with h show "objects (undo (undo ?s2)) = objects ?s1"
    by (simp add: parse_stringify_objects)
qed

text \<open>
  The claim as stated, for every object set, fails: the snapshot is a JSON text, and what
  \<^verbatim>\<open>undo\<close> restores is that text parsed. A rotation \<^verbatim>\<open>NaN\<close>, which the inspector sends when
  the text of its field does not parse as a number, is written \<^verbatim>\<open>null\<close>: \<^verbatim>\<open>undo\<close> right after
  that edit does not bring back its object set, nor does a second \<^verbatim>\<open>undo\<close> after one more
  edit, and an added object that carries \<^verbatim>\<open>NaN\<close> does not come back as it was added.
\<close>

theorem lagged_undo_counterexample:
  "objects (undo (run [AddObject sofa, UpdateObject ''a'' [(''rotation'', Num NaN)]] init_store))
     \<noteq> objects (run [AddObject sofa, UpdateObject ''a'' [(''rotation'', Num NaN)]] init_store) \<and>
   objects (undo (undo (run [AddObject sofa, UpdateObject ''a'' [(''rotation'', Num NaN)], AddObject rug]
       init_store)))
     \<noteq> objects (run [AddObject sofa, UpdateObject ''a'' [(''rotation'', Num NaN)]] init_store) \<and>
   objects (undo (addObject [(''id'', Str ''a''), (''rotation'', Num NaN)] init_store))
     \<noteq> [[(''id'', Str ''a''), (''rotation'', Num NaN)]]"
  by (simp add: store_defs init_store_def sofa_def rug_def has_id_def get_prop_def spread_def
      copy_props_def JSON_stringify_def JSON_parse_objects_def)

theorem lagged_undo_witness:
  "json_plain_props sofa \<and> mutating (AddObject rug) \<and> mutating (RemoveObject ''a'') \<and>
   objects (undo (addObject sofa init_store)) = [sofa] \<and>
   objects (undo (perform (AddObject rug) (addObject sofa init_store))) = [sofa, rug] \<and>
   objects (undo (undo (perform (RemoveObject ''a'') (perform (AddObject rug) (addObject sofa init_store)))))
     = [sofa, rug]"
  using lagged_undo [of sofa "AddObject rug" "addObject sofa init_store" "RemoveObject ''a''"]
  by (simp add: sofa_def rug_def store_defs init_store_def has_id_def get_prop_def)

text \<open>
  C2 (selection invariant, amended). \<^verbatim>\<open>select\<close> stores whatever identifier it is given and
  \<^verbatim>\<open>updateObject\<close> merges whatever patch it is given. In every state reached from the
  empty scene by calls in which \<^verbatim>\<open>select\<close> receives \<^verbatim>\<open>null\<close> or the identifier of an object
  of the scene, and in which no patch for the selected object names \<^verbatim>\<open>id\<close>, the selection
  is \<^verbatim>\<open>null\<close> or the identifier of an object of the scene. In every state,
  \<^verbatim>\<open>removeObject(selectedId)\<close> with a selection that is not \<^verbatim>\<open>null\<close> leaves the selection
  \<^verbatim>\<open>null\<close>.
\<close>

theorem selection_invariant:
  "(run_ok cs init_store \<longrightarrow> selection_ok (run cs init_store)) \<and>
   (selectedId s = Some i \<longrightarrow> selectedId (removeObject i s) = None)"
proof -
  have "selection_ok init_store"
    by (simp add: selection_ok_def init_store_def)
  then show ?thesis
    by (simp add: selection_ok_run removeObject_def pushUndo_def)
qed

text \<open>
  The claim as stated, for every sequence of store calls, fails: selecting an identifier
  that no object carries, and renaming the selected object, both leave a selection that
  references nothing.
\<close>

theorem selection_invariant_counterexample:
  "\<not> selection_ok (run [Select (Some ''x'')] init_store) \<and>
   \<not> selection_ok (run [AddObject sofa, Select (Some ''a''), UpdateObject ''a'' [(''id'', Str ''z'')]]
        init_store)"
  by (simp add: selection_ok_def store_defs init_store_def sofa_def has_id_def get_prop_def
      spread_def copy_props_def)

theorem selection_invariant_witness:
  "run_ok selecting_session init_store \<and>
   selection_ok (run selecting_session init_store) \<and>
   selectedId (run selecting_session init_store) = Some ''a'' \<and>
   selectedId (removeObject ''a'' (run selecting_session init_store)) = None"
  using selection_invariant [of selecting_session "run selecting_session init_store" "''a''"]
  by (simp add: selecting_session_def store_defs init_store_def sofa_def rug_def has_id_def
      get_prop_def spread_def copy_props_def JSON_stringify_def JSON_parse_objects_def)

text \<open>
  C3 (history linearity). Right after \<^verbatim>\<open>addObject\<close>, \<^verbatim>\<open>updateObject\<close> or \<^verbatim>\<open>removeObject\<close>,
  in any state, the redo stack is empty and the undo stack is the former one with exactly
  one more snapshot on top, the snapshot of the new object set.
\<close>

theorem history_linearity:
  "redoStack (addObject obj s) = [] \<and>
   undoStack (addObject obj s) = undoStack s @ [JSON_stringify (objects (addObject obj s))] \<and>
   length (undoStack (addObject obj s)) = length (undoStack s) + 1 \<and>
   redoStack (updateObject i patch s) = [] \<and>
   undoStack (updateObject i patch s) =
     undoStack s @ [JSON_stringify (objects (updateObject i patch s))] \<and>
   length (undoStack (updateObject i patch s)) = length (undoStack s) + 1 \<and>
   redoStack (removeObject i s) = [] \<and>
   undoStack (removeObject i s) = undoStack s @ [JSON_stringify (objects (removeObject i s))] \<and>
   length (undoStack (removeObject i s)) = length (undoStack s) + 1"
  by (simp add: store_defs)

theorem history_linearity_witness:
  "redoStack (addObject rug (undo (addObject sofa init_store))) = [] \<and>
   length (undoStack (addObject rug (undo (addObject sofa init_store)))) = 1 \<and>
   redoStack (updateObject ''a'' [(''color'', Str ''#ff0000'')] (undo (addObject sofa init_store))) = [] \<and>
   redoStack (removeObject ''a'' (undo (addObject sofa init_store))) = [] \<and>
   redoStack (undo (addObject sofa init_store)) \<noteq> []"
  using history_linearity [of rug "undo (addObject sofa init_store)" "''a''"
      "[(''color'', Str ''#ff0000'')]"]
  by (simp add: store_defs init_store_def)

text \<open>
  C4 (undo and redo round trip, amended). From a state whose undo stack is not empty and
  whose objects are plain JSON data, \<^verbatim>\<open>redo\<close> right after \<^verbatim>\<open>undo\<close> gives back the object
  set that was there before the \<^verbatim>\<open>undo\<close>.
\<close>

theorem undo_redo_round_trip:
  assumes "undoStack s \<noteq> []" and "list_all json_plain_props (objects s)"
  shows "objects (redo (undo s)) = objects s"
  using assms by (simp add: redo_undo_objects parse_stringify_objects)

text \<open>
  The claim as stated, from any state, fails in two ways. With an empty undo stack
  \<^verbatim>\<open>undo\<close> returns at its guard and \<^verbatim>\<open>redo\<close> then applies a pending redo snapshot: after
  two additions and two undos the scene holds the sofa, and \<^verbatim>\<open>undo\<close>, \<^verbatim>\<open>redo\<close> bring the
  rug back. And a snapshot does not keep a value that JSON cannot write: a rotation
  \<^verbatim>\<open>NaN\<close> comes back as \<^verbatim>\<open>null\<close>.
\<close>

theorem undo_redo_round_trip_counterexample:
  "objects (redo (undo (run [AddObject sofa, AddObject rug, Undo, Undo] init_store)))
     \<noteq> objects (run [AddObject sofa, AddObject rug, Undo, Undo] init_store) \<and>
   objects (redo (undo (run [AddObject sofa, UpdateObject ''a'' [(''rotation'', Num NaN)]] init_store)))
     \<noteq> objects (run [AddObject sofa, UpdateObject ''a'' [(''rotation'', Num NaN)]] init_store)"
proof
  show "objects (redo (undo (run [AddObject sofa, AddObject rug, Undo, Undo] init_store)))
     \<noteq> objects (run [AddObject sofa, AddObject rug, Undo, Undo] init_store)"
    unfolding two_undos
    by (simp add: undo_def redo_def parse_stringify_objects sofa_plain rug_plain)
  show "objects (redo (undo (run [AddObject sofa, UpdateObject ''a'' [(''rotation'', Num NaN)]] init_store)))
     \<noteq> objects (run [AddObject sofa, UpdateObject ''a'' [(''rotation'', Num NaN)]] init_store)"
    by (simp add: store_defs init_store_def sofa_def has_id_def get_prop_def spread_def
        copy_props_def JSON_stringify_def JSON_parse_objects_def)
qed

theorem undo_redo_round_trip_witness:
  "undoStack (addObject rug (addObject sofa init_store)) \<noteq> [] \<and>
   list_all json_plain_props (objects (addObject rug (addObject sofa init_store))) \<and>
   objects (redo (undo (addObject rug (addObject sofa init_store)))) = [sofa, rug]"
proof -
  let ?s = "addObject rug (addObject sofa init_store)"
  have s: "objects ?s = [sofa, rug]" "undoStack ?s \<noteq> []"
    by (simp_all add: addObject_def pushUndo_def init_store_def)
  have p: "list_all json_plain_props (objects ?s)"
    by (simp add: s sofa_plain rug_plain)
  from undo_redo_round_trip [OF s(2) p] s p show ?thesis
    by simp
qed

text \<open>
  C5 (no-op on empty history). With an empty undo stack \<^verbatim>\<open>undo\<close> returns the state it
  was given: objects, selection and both stacks are unchanged. With an empty redo stack
  \<^verbatim>\<open>redo\<close> does the same. Both return at their guard, before any statement that could
  throw.
\<close>

theorem empty_history_noop:
  "(undoStack s = [] \<longrightarrow> undo s = s) \<and> (redoStack s = [] \<longrightarrow> redo s = s)"
  by (simp add: undo_def redo_def)

theorem empty_history_noop_witness:
  "undoStack (select (Some ''a'') (undo (addObject sofa init_store))) = [] \<and>
   undo (select (Some ''a'') (undo (addObject sofa init_store)))
     = select (Some ''a'') (undo (addObject sofa init_store)) \<and>
   redoStack (select (Some ''a'') (addObject sofa init_store)) = [] \<and>
   redo (select (Some ''a'') (addObject sofa init_store))
     = select (Some ''a'') (addObject sofa init_store)"
  using empty_history_noop [of "select (Some ''a'') (undo (addObject sofa init_store))"]
    empty_history_noop [of "select (Some ''a'') (addObject sofa init_store)"]
  by (simp add: store_defs init_store_def)

text \<open>
  C6 (missing identifier). When no object of the scene carries the identifier,
  \<^verbatim>\<open>updateObject\<close> and \<^verbatim>\<open>removeObject\<close> leave the object set as it is: the same objects,
  in the same order, with the same properties. Neither has a statement that throws.
\<close>

theorem missing_id_tolerance:
  assumes "\<forall>ob\<in>set (objects s). \<not> has_id i ob"
  shows "objects (updateObject i patch s) = objects s \<and> objects (removeObject i s) = objects s"
  using assms
  by (simp add: updateObject_def removeObject_def pushUndo_def map_update_absent
      filter_remove_absent)

theorem missing_id_tolerance_witness:
  "\<not> has_id ''missing'' sofa \<and>
   objects (updateObject ''missing'' [(''color'', Str ''#000'')] (addObject sofa init_store)) = [sofa] \<and>
   objects (removeObject ''missing'' (addObject sofa init_store)) = [sofa]"
  using missing_id_tolerance [of "addObject sofa init_store" "''missing''" "[(''color'', Str ''#000'')]"]
  by (simp add: addObject_def pushUndo_def init_store_def has_id_def get_prop_def sofa_def)

text \<open>
  C7 (update frame). When the object at position \<open>n\<close> carries the identifier,
  \<^verbatim>\<open>updateObject\<close> keeps the number of objects and puts at \<open>n\<close> the merge of that object
  and the patch: every property the patch does not name, \<^verbatim>\<open>meta\<close> included, has the value
  it had, every property the patch names has the value of the patch, and every object
  that does not carry the identifier is unchanged.
\<close>

theorem update_frame:
  assumes "n < length (objects s)" and "has_id t (objects s ! n)"
  shows "length (objects (updateObject t patch s)) = length (objects s) \<and>
         objects (updateObject t patch s) ! n = spread (objects s ! n) patch \<and>
         (\<forall>k. k \<notin> set (map fst patch) \<longrightarrow>
            get_prop (objects (updateObject t patch s) ! n) k = get_prop (objects s ! n) k) \<and>
         (distinct (map fst patch) \<longrightarrow>
            (\<forall>k v. (k, v) \<in> set patch \<longrightarrow>
               get_prop (objects (updateObject t patch s) ! n) k = v)) \<and>
         (\<forall>m < length (objects s). \<not> has_id t (objects s ! m) \<longrightarrow>
            objects (updateObject t patch s) ! m = objects s ! m)"
  using assms
  by (auto simp: objects_updateObject get_prop_spread_other get_prop_spread_named)

theorem update_frame_witness:
  "has_id ''a'' sofa \<and> \<not> has_id ''a'' rug \<and>
   get_prop (objects (updateObject ''a'' [(''color'', Str ''#ff0000'')]
                (addObject rug (addObject sofa init_store))) ! 0) ''color'' = Str ''#ff0000'' \<and>
   get_prop (objects (updateObject ''a'' [(''color'', Str ''#ff0000'')]
                (addObject rug (addObject sofa init_store))) ! 0) ''meta'' = get_prop sofa ''meta'' \<and>
   get_prop (objects (updateObject ''a'' [(''color'', Str ''#ff0000'')]
                (addObject rug (addObject sofa init_store))) ! 0) ''size'' = get_prop sofa ''size'' \<and>
   objects (updateObject ''a'' [(''color'', Str ''#ff0000'')]
                (addObject rug (addObject sofa init_store))) ! 1 = rug"
proof -
  let ?s = "addObject rug (addObject sofa init_store)"
  let ?p = "[(''color'', Str ''#ff0000'')]"
  have s: "objects ?s = [sofa, rug]"
    by (simp add: addObject_def pushUndo_def init_store_def)
  have a: "has_id ''a'' sofa" and b: "\<not> has_id ''a'' rug"
    by (simp_all add: has_id_def get_prop_def sofa_def rug_def)
  have "0 < length (objects ?s)" and "has_id ''a'' (objects ?s ! 0)"
    using a by (simp_all add: s)
  note frame = update_frame [OF this, of ?p]
  from frame have other:
    "\<forall>k. k \<notin> set (map fst ?p) \<longrightarrow>
       get_prop (objects (updateObject ''a'' ?p ?s) ! 0) k = get_prop (objects ?s ! 0) k"
    by blast
  have "distinct (map fst ?p)"
    by simp
  with frame have named:
    "\<forall>k v. (k, v) \<in> set ?p \<longrightarrow> get_prop (objects (updateObject ''a'' ?p ?s) ! 0) k = v"
    by blast
  from frame have rest:
    "\<forall>m < length (objects ?s). \<not> has_id ''a'' (objects ?s ! m) \<longrightarrow>
       objects (updateObject ''a'' ?p ?s) ! m = objects ?s ! m"
    by blast
  have "get_prop (objects (updateObject ''a'' ?p ?s) ! 0) ''color'' = Str ''#ff0000''"
    using named by simp
  moreover have "get_prop (objects (updateObject ''a'' ?p ?s) ! 0) ''meta'' = get_prop sofa ''meta''"
    using other [rule_format, of "''meta''"] by (simp add: s)
  moreover have "get_prop (objects (updateObject ''a'' ?p ?s) ! 0) ''size'' = get_prop sofa ''size''"
    using other [rule_format, of "''size''"] by (simp add: s)
  moreover have "objects (updateObject ''a'' ?p ?s) ! 1 = rug"
    using rest [rule_format, of 1] b by (simp add: s)
  ultimately show ?thesis
    using a b by simp
qed

text \<open>
  C8 (uniqueness and insertion order). After \<^verbatim>\<open>addObject\<close> calls with pairwise distinct
  identifiers, from the empty scene, the object set is the list of the added objects in
  the order of the calls, its identifiers are distinct, and for each added object it is
  the only one with its identifier.
\<close>

theorem add_unique_in_order:
  assumes "distinct (map (\<lambda>ob. get_prop ob ''id'') objs)"
  shows "objects (run (map AddObject objs) init_store) = objs \<and>
         distinct (map (\<lambda>ob. get_prop ob ''id'') (objects (run (map AddObject objs) init_store))) \<and>
         (\<forall>ob\<in>set objs.
            filter (\<lambda>x. get_prop x ''id'' = get_prop ob ''id'')
              (objects (run (map AddObject objs) init_store)) = [ob])"
proof -
  have "objects (run (map AddObject objs) init_store) = objs"
    by (simp add: objects_run_adds init_store_def)
  moreover have "\<forall>ob\<in>set objs. filter (\<lambda>x. get_prop x ''id'' = get_prop ob ''id'') objs = [ob]"
    using filter_same_key [OF assms] by blast
  ultimately show ?thesis
    using assms by simp
qed

theorem add_unique_in_order_witness:
  "distinct (map (\<lambda>ob. get_prop ob ''id'') [sofa, rug]) \<and>
   objects (run [AddObject sofa, AddObject rug] init_store) = [sofa, rug] \<and>
   filter (\<lambda>x. get_prop x ''id'' = Str ''a'') (objects (run [AddObject sofa, AddObject rug] init_store)) = [sofa] \<and>
   filter (\<lambda>x. get_prop x ''id'' = Str ''b'') (objects (run [AddObject sofa, AddObject rug] init_store)) = [rug]"
proof -
  have ids: "get_prop sofa ''id'' = Str ''a''" "get_prop rug ''id'' = Str ''b''"
    by (simp_all add: get_prop_def sofa_def rug_def)
  then have "distinct (map (\<lambda>ob. get_prop ob ''id'') [sofa, rug])"
    by simp
  from add_unique_in_order [OF this] ids show ?thesis
    by simp
qed

text \<open>
  C9 (identifier and size, amended). \<^verbatim>\<open>updateObject\<close> merges any patch, also one that
  names \<^verbatim>\<open>id\<close> or \<^verbatim>\<open>size\<close>. Under calls whose patches name neither, from the empty scene
  and for added objects whose \<^verbatim>\<open>id\<close> and \<^verbatim>\<open>size\<close> are plain JSON data, every object of
  the scene carries the \<^verbatim>\<open>id\<close> and the \<^verbatim>\<open>size\<close> that one of the added objects was given at
  creation. In any state, a patch that does not name \<^verbatim>\<open>id\<close> leaves the \<^verbatim>\<open>id\<close> of every
  object unchanged, and a patch that does not name \<^verbatim>\<open>size\<close> leaves every \<^verbatim>\<open>size\<close>
  unchanged.
\<close>

theorem id_size_permanent:
  "(list_all keeps_id_size cs \<and> list_all id_size_plain (added cs) \<longrightarrow>
      (\<forall>ob\<in>set (objects (run cs init_store)). id_size ob \<in> id_size ` set (added cs))) \<and>
   (''id'' \<notin> set (map fst patch) \<longrightarrow>
      map (\<lambda>ob. get_prop ob ''id'') (objects (updateObject t patch s))
        = map (\<lambda>ob. get_prop ob ''id'') (objects s)) \<and>
   (''size'' \<notin> set (map fst patch) \<longrightarrow>
      map (\<lambda>ob. get_prop ob ''size'') (objects (updateObject t patch s))
        = map (\<lambda>ob. get_prop ob ''size'') (objects s))"
proof (intro conjI impI)
  assume h: "list_all keeps_id_size cs \<and> list_all id_size_plain (added cs)"
  let ?C = "id_size ` set (added cs)"
  from h have "\<forall>p\<in>?C. json_plain (fst p) \<and> json_plain (snd p)"
    by (auto simp: list_all_iff id_size_plain_def id_size_def)
  moreover have "id_size_inv ?C init_store"
    by (simp add: id_size_inv_def init_store_def)
  ultimately have "id_size_inv ?C (run cs init_store)"
    using h by (intro id_size_inv_run) simp_all
  then show "\<forall>ob\<in>set (objects (run cs init_store)). id_size ob \<in> ?C"
    by (simp add: id_size_inv_def)
next
  assume "''id'' \<notin> set (map fst patch)"
  then show "map (\<lambda>ob. get_prop ob ''id'') (objects (updateObject t patch s))
        = map (\<lambda>ob. get_prop ob ''id'') (objects s)"
    by (simp add: objects_updateObject get_prop_spread_other)
next
  assume "''size'' \<notin> set (map fst patch)"
  then show "map (\<lambda>ob. get_prop ob ''size'') (objects (updateObject t patch s))
        = map (\<lambda>ob. get_prop ob ''size'') (objects s)"
    by (simp add: objects_updateObject get_prop_spread_other)
qed

text \<open>
  The claim as stated, for every patch, fails: a patch that names \<^verbatim>\<open>id\<close> and \<^verbatim>\<open>size\<close>
  replaces both on the object it targets.
\<close>

theorem id_size_permanent_counterexample:
  "get_prop (objects (updateObject ''a'' [(''id'', Str ''z''), (''size'', Arr [Num (Finite 1), Num (Finite 1), Num (Finite 1)])]
       (addObject sofa init_store)) ! 0) ''id'' \<noteq> get_prop sofa ''id'' \<and>
   get_prop (objects (updateObject ''a'' [(''id'', Str ''z''), (''size'', Arr [Num (Finite 1), Num (Finite 1), Num (Finite 1)])]
       (addObject sofa init_store)) ! 0) ''size'' \<noteq> get_prop sofa ''size''"
  by (simp add: store_defs init_store_def sofa_def has_id_def get_prop_def spread_def copy_props_def)

theorem id_size_permanent_witness:
  "list_all keeps_id_size patching_session \<and> list_all id_size_plain (added patching_session) \<and>
   map id_size (objects (run patching_session init_store)) = [id_size sofa] \<and>
   get_prop (objects (run patching_session init_store) ! 0) ''position'' \<noteq> get_prop sofa ''position'' \<and>
   map (\<lambda>ob. get_prop ob ''id'') (objects (updateObject ''a'' [(''color'', Str ''#ff0000'')] (addObject sofa init_store)))
     = [Str ''a'']"
  using id_size_permanent [of patching_session "[(''color'', Str ''#ff0000'')]" "''a''" "addObject sofa init_store"]
  by (simp add: patching_session_def store_defs init_store_def sofa_def rug_def has_id_def get_prop_def
      spread_def copy_props_def JSON_stringify_def JSON_parse_objects_def id_size_def
      id_size_plain_def)

text \<open>
  C10 (no-op edits grow the history, amended). When no object of the scene carries the
  identifier, \<^verbatim>\<open>updateObject\<close> changes nothing but the stacks, and \<^verbatim>\<open>removeObject\<close> changes
  nothing but the stacks and a selection equal to that identifier, which it sets to
  \<^verbatim>\<open>null\<close>; any other selection is unchanged. Both push one snapshot of the unchanged
  object set on the undo stack and empty the redo stack.
\<close>

theorem noop_mutation_grows_history:
  assumes "\<forall>ob\<in>set (objects s). \<not> has_id i ob"
  shows "updateObject i patch s =
           s\<lparr>undoStack := undoStack s @ [JSON_stringify (objects s)], redoStack := []\<rparr> \<and>
         removeObject i s =
           s\<lparr>selectedId := (if selectedId s = Some i then None else selectedId s),
             undoStack := undoStack s @ [JSON_stringify (objects s)], redoStack := []\<rparr>"
  using assms
  by (simp add: updateObject_def removeObject_def pushUndo_def map_update_absent
      filter_remove_absent)

text \<open>
  The claim as stated, for every state, fails where the selection references no object:
  \<^verbatim>\<open>removeObject\<close> of the selected, absent identifier clears the selection.
\<close>

theorem noop_mutation_counterexample:
  "\<not> list_ex (has_id ''x'') (objects (select (Some ''x'') init_store)) \<and>
   selectedId (removeObject ''x'' (select (Some ''x'') init_store))
     \<noteq> selectedId (select (Some ''x'') init_store)"
  by (simp add: store_defs init_store_def)

theorem noop_mutation_grows_history_witness:
  "\<not> has_id ''missing'' sofa \<and>
   updateObject ''missing'' [(''color'', Str ''#000'')] (select (Some ''a'') (undo (addObject sofa init_store)))
     = \<lparr>objects = [sofa], selectedId = Some ''a'', undoStack = [JSON_stringify [sofa]], redoStack = []\<rparr> \<and>
   removeObject ''missing'' (select (Some ''a'') (undo (addObject sofa init_store)))
     = \<lparr>objects = [sofa], selectedId = Some ''a'', undoStack = [JSON_stringify [sofa]], redoStack = []\<rparr>"
proof -
  let ?s = "select (Some ''a'') (undo (addObject sofa init_store))"
  have s: "?s = \<lparr>objects = [sofa], selectedId = Some ''a'', undoStack = [],
                 redoStack = [JSON_stringify [sofa]]\<rparr>"
    by (simp add: undo_add_sofa select_def)
  have absent: "\<not> has_id ''missing'' sofa"
    by (simp add: has_id_def get_prop_def sofa_def)
  then have "\<forall>ob\<in>set (objects ?s). \<not> has_id ''missing'' ob"
    unfolding s by simp
  from noop_mutation_grows_history [OF this, of "[(''color'', Str ''#000'')]"] absent
  show ?thesis
    unfolding s by simp
qed

end
